theory Spec2Isabelle
  imports Complex_Main "HOL-Library.Word" "HOL-Library.AList"
begin

section \<open>Exceptions and results\<close>

text \<open>
  The Python exceptions that the modelled code can raise.  A computation that may raise
  returns \<open>error + 'a\<close>, with \<open>Inl\<close> for the exception.
\<close>

datatype error =
    MplFileException
  | AssertionError
  | ValueError
  | OverflowError
  | TypeError
  | AttributeError
  | KeyError
  | OSError
  | XmpValueError
  | CalledProcessError
  | ZeroDivisionError

definition bind :: "error + 'a \<Rightarrow> ('a \<Rightarrow> error + 'b) \<Rightarrow> error + 'b" where
  "bind m f = (case m of Inl e \<Rightarrow> Inl e | Inr x \<Rightarrow> f x)"

section \<open>Integer renderings used by the packed-decimal fields (mpl\_extract.py)\<close>

type_synonym byte = "8 word"

text \<open>
  \<open>digits b n\<close> are the digits of \<open>n\<close> in base \<open>b\<close>, most significant first, without
  leading zeros (a single \<open>0\<close> for zero), as Python renders a non-negative integer.
\<close>

function digits :: "nat \<Rightarrow> nat \<Rightarrow> nat list" where
  "digits b n = (if n < b \<or> b < 2 then [n] else digits b (n div b) @ [n mod b])"
  by pat_completeness auto
termination
  by (relation "measure (\<lambda>(b, n). n)") auto

declare digits.simps [simp del]

definition digit_char :: "nat \<Rightarrow> char" where
  "digit_char d = ''0123456789abcdef'' ! d"

text \<open>\<open>"{:x}".format(n)\<close> and \<open>f"{n}"\<close> for a non-negative \<open>n\<close>.\<close>

definition format_x :: "nat \<Rightarrow> string" where
  "format_x n = map digit_char (digits 16 n)"

definition format_d :: "nat \<Rightarrow> string" where
  "format_d n = map digit_char (digits 10 n)"

text \<open>
  The value of one character as a digit, as \<open>int(s, base)\<close> reads it (letters in either
  case).
\<close>

definition digit_val :: "char \<Rightarrow> nat option" where
  "digit_val c =
     (let k = of_char c :: nat in
      if 48 \<le> k \<and> k \<le> 57 then Some (k - 48)
      else if 97 \<le> k \<and> k \<le> 102 then Some (k - 87)
      else if 65 \<le> k \<and> k \<le> 70 then Some (k - 55)
      else None)"

definition from_digits :: "nat \<Rightarrow> nat list \<Rightarrow> nat" where
  "from_digits b ds = foldl (\<lambda>acc d. acc * b + d) 0 ds"

text \<open>
  \<open>int(s, base)\<close> on a string of plain digits: the strings parsed here are always
  renderings of non-negative integers, so signs, blanks, underscores and prefixes do
  not occur.  A character that is not a digit of the base raises \<open>ValueError\<close>, as does
  the empty string.
\<close>

definition int_of_str :: "nat \<Rightarrow> string \<Rightarrow> error + nat" where
  "int_of_str b s =
     (if s = [] then Inl ValueError
      else if list_all (\<lambda>c. case digit_val c of None \<Rightarrow> False | Some d \<Rightarrow> d < b) s
      then Inr (from_digits b (map (\<lambda>c. the (digit_val c)) s))
      else Inl ValueError)"

text \<open>\<open>int.from_bytes(bs, byteorder='big')\<close> and \<open>n.to_bytes(2, byteorder='big')\<close>.\<close>

definition from_bytes :: "byte list \<Rightarrow> nat" where
  "from_bytes bs = foldl (\<lambda>acc b. acc * 256 + unat b) 0 bs"

definition to_bytes2 :: "nat \<Rightarrow> error + byte list" where
  "to_bytes2 n =
     (if n < 65536 then Inr [of_nat (n div 256), of_nat (n mod 256)] else Inl OverflowError)"

text \<open>\<open>bytes((n,))\<close>: one byte, \<open>ValueError\<close> outside \<open>range(256)\<close>.\<close>

definition bytes1 :: "nat \<Rightarrow> error + byte list" where
  "bytes1 n = (if n < 256 then Inr [of_nat n] else Inl ValueError)"

text \<open>
  The packed-decimal transforms, as the expressions of \<open>MplFile.read\<close> (lines 81 and 84)
  and \<open>MplFile.write\<close> (lines 113 and 116) compute them:
  \<^item> decode: \<open>int("{:x}".format(int.from_bytes(bs, byteorder='big')))\<close> for the year and
    \<open>int("{:x}".format(ord(b)))\<close> for the one-byte fields;
  \<^item> encode: \<open>int(f"{v}", 16).to_bytes(2, byteorder='big')\<close> for the year and
    \<open>bytes((int(f"{v}", 16),))\<close> for the one-byte fields.
\<close>

definition decode_year :: "byte list \<Rightarrow> error + nat" where
  "decode_year bs = int_of_str 10 (format_x (from_bytes bs))"

definition decode_field :: "byte \<Rightarrow> error + nat" where
  "decode_field b = int_of_str 10 (format_x (unat b))"

definition encode_year :: "nat \<Rightarrow> error + byte list" where
  "encode_year v = bind (int_of_str 16 (format_d v)) to_bytes2"

definition encode_field :: "nat \<Rightarrow> error + byte list" where
  "encode_field v = bind (int_of_str 16 (format_d v)) bytes1"

section \<open>The delta interpolator (main.py, \<open>update_timestamp_delta_state.get_delta\<close>)\<close>

type_synonym timedelta = int



subsection \<open>The float arithmetic of lines 781 and 782\<close>

text \<open>Rounding to the nearest integer, a tie to the even one.\<close>

definition round_half_even :: "rat \<Rightarrow> int" where
  "round_half_even x =
     (let f = \<lfloor>x\<rfloor>; r = x - of_int f
      in if r < 1 / 2 then f
         else if 1 / 2 < r then f + 1
         else if even f then f else f + 1)"

text \<open>\<open>int.bit_length\<close>, on a number that is not negative.\<close>

function bit_length :: "int \<Rightarrow> nat" where
  "bit_length n = (if n \<le> 0 then 0 else Suc (bit_length (n div 2)))"
  by auto

termination
  by (relation "measure nat") auto

declare bit_length.simps [simp del]

definition scale2 :: "rat \<Rightarrow> int \<Rightarrow> rat" where
  "scale2 x k = (if 0 \<le> k then x * 2 ^ nat k else x / 2 ^ nat (- k))"

text \<open>
  \<open>timedelta / timedelta\<close> is the true division of the two microsecond counts: the
  double nearest to the quotient, a tie going to the even significand.  A double is the
  rational number it denotes.  The exponent \<open>k\<close> is the one that scales the quotient to a
  significand of 53 bits.  The range of the exponent of a double is not modelled: the
  quotients of microsecond counts stay far from it.
\<close>

definition true_divide :: "int \<Rightarrow> int \<Rightarrow> rat" where
  "true_divide p q =
     (let x = of_int p / of_int q;
          k0 = 53 + int (bit_length \<bar>q\<bar>) - int (bit_length \<bar>p\<bar>);
          k = (if 2 ^ 53 \<le> scale2 \<bar>x\<bar> k0 then k0 - 1 else k0)
      in scale2 (of_int (round_half_even (scale2 x k))) (- k))"

text \<open>
  \<open>float * timedelta\<close>: the product of the microsecond count and the exact value of the
  float, rounded to the nearest microsecond, a tie to the even one.
\<close>

definition mul_float_timedelta :: "rat \<Rightarrow> timedelta \<Rightarrow> timedelta" where
  "mul_float_timedelta x d = round_half_even (x * of_int d)"

subsection \<open>\<open>get_delta\<close>\<close>



section \<open>The session-index file (mpl\_extract.py)\<close>

subsection \<open>Binary files\<close>

text \<open>
  An open binary file: its contents and the current position.  \<open>read\<close> returns at most
  the requested number of bytes (fewer at the end of the file); \<open>write\<close> overwrites in
  place and extends the file when it runs past the end (a gap is filled with zeros).
\<close>

record fobj =
  content :: "byte list"
  pos :: nat

definition f_seek :: "fobj \<Rightarrow> nat \<Rightarrow> fobj" where
  "f_seek f p = f\<lparr>pos := p\<rparr>"

definition f_read :: "fobj \<Rightarrow> nat \<Rightarrow> byte list \<times> fobj" where
  "f_read f n =
     (let bs = take n (drop (pos f) (content f))
      in (bs, f\<lparr>pos := pos f + length bs\<rparr>))"

definition f_write :: "fobj \<Rightarrow> byte list \<Rightarrow> fobj" where
  "f_write f bs =
     f\<lparr>content := take (pos f) (content f) @ replicate (pos f - length (content f)) 0 @ bs
                    @ drop (pos f + length bs) (content f),
       pos := pos f + length bs\<rparr>"


subsection \<open>Clip records\<close>

text \<open>
  The calendar fields and the \<open>tzinfo\<close> of a \<open>datetime.datetime\<close>, which is all that
  mpl\_extract.py reads of it; \<open>tzinfo\<close> is the UTC offset in seconds, \<open>None\<close> on a naive
  value.
\<close>

record mts_datetime =
  year :: nat
  month :: nat
  day :: nat
  hour :: nat
  minute :: nat
  second :: nat
  tzinfo :: "int option"

text \<open>The class \<open>MtsInfo\<close>: \<open>__setitem__\<close> stores the value and marks the record dirty.\<close>

record mts_info =
  seek_pos :: nat
  info_datetime :: mts_datetime
  dirty :: bool



type_synonym tz_dict = "(string \<times> int) list"
type_synonym mts_db = "(string \<times> mts_info) list"

text \<open>
  An \<open>MplFile\<close> object: \<open>db\<close> is a dictionary in insertion order, \<open>tz_dict\<close> the
  sidecar map.  The two files on disk that it reads and writes are kept beside it:
  the session-index file (absent when it cannot be opened) and the sidecar.
\<close>

record mpl_file =
  db :: mts_db
  tz_dict :: tz_dict


subsection \<open>Text renderings\<close>

definition pad_left :: "char \<Rightarrow> nat \<Rightarrow> string \<Rightarrow> string" where
  "pad_left c w s = replicate (w - length s) c @ s"


text \<open>\<open>f"{dt.year:4d}.{dt.month:2d}.{dt.day:2d}".encode('ascii')\<close>: padded with blanks.\<close>

definition ascii :: "string \<Rightarrow> byte list" where
  "ascii s = map (\<lambda>c. of_nat (of_char c)) s"

definition date_string :: "mts_datetime \<Rightarrow> byte list" where
  "date_string dt =
     ascii (pad_left (CHR '' '') 4 (format_d (year dt)) @ ''.'' @
            pad_left (CHR '' '') 2 (format_d (month dt)) @ ''.'' @
            pad_left (CHR '' '') 2 (format_d (day dt)))"

definition kind_markers :: "byte list set" where
  "kind_markers = {[0x90, 0x0A], [0x90, 0x0C]}"

subsection \<open>\<open>MplFile.write\<close>\<close>

text \<open>
  The loop \<open>for val in (dt.month, dt.day, dt.hour, dt.minute, dt.second)\<close> of line 115:
  each value is encoded and written in turn; an encoding error leaves the bytes written
  before it in the file.
\<close>

fun write_fields :: "nat list \<Rightarrow> fobj \<Rightarrow> error option \<times> fobj" where
  "write_fields [] f = (None, f)"
| "write_fields (v # vs) f =
     (case encode_field v of
        Inl e \<Rightarrow> (Some e, f)
      | Inr bs \<Rightarrow> write_fields vs (f_write f bs))"

text \<open>
  The body of the loop of \<open>write\<close> for one dirty record, lines 108 to 120: the file
  operations in the order of the source.  The result is the exception raised, if any,
  and the file as it is at that point: Python writes in place, so what was written
  before an exception stays written.
\<close>

definition write_record :: "string \<Rightarrow> mts_info \<Rightarrow> fobj \<Rightarrow> error option \<times> fobj" where
  "write_record mts_filename info f0 =
     (let f1 = f_seek f0 (seek_pos info);
          dt = info_datetime info;
          (id_read, f2) = f_read f1 2
      in case bind (int_of_str 10 (take (length mts_filename - 4) mts_filename)) to_bytes2 of
           Inl e \<Rightarrow> (Some e, f2)
         | Inr id_bytes \<Rightarrow>
      if id_read \<noteq> id_bytes then (Some AssertionError, f2)
      else let (sep, f3) = f_read f2 1
      in if sep \<noteq> [0x1E] then (Some AssertionError, f3)
      else case encode_year (year dt) of
           Inl e \<Rightarrow> (Some e, f3)
         | Inr yb \<Rightarrow>
      (case write_fields [month dt, day dt, hour dt, minute dt, second dt] (f_write f3 yb) of
           (Some e, f5) \<Rightarrow> (Some e, f5)
         | (None, f5) \<Rightarrow>
      let (kind, f6) = f_read f5 2
      in if kind \<notin> kind_markers then (Some AssertionError, f6)
      else (None, f_write f6 (date_string dt))))"

text \<open>Lines 122 to 125: the sidecar entry of a record that has been written.\<close>

definition update_tz :: "string \<Rightarrow> mts_datetime \<Rightarrow> tz_dict \<Rightarrow> tz_dict" where
  "update_tz mts_filename dt tz =
     (case tzinfo dt of
        None \<Rightarrow> AList.delete mts_filename tz
      | Some off \<Rightarrow> AList.update mts_filename off tz)"

text \<open>
  The loop over \<open>self.db.items()\<close>, lines 104 to 127.  A record that is not dirty is
  skipped; a dirty one is written, its sidecar entry updated and its flag cleared
  (line 127, inside the loop) before the next record is looked at.  An exception
  ends the loop, with the records, the file and the sidecar map as they are then.
\<close>

fun write_items :: "mts_db \<Rightarrow> fobj \<Rightarrow> tz_dict \<Rightarrow> error option \<times> mts_db \<times> fobj \<times> tz_dict" where
  "write_items [] f tz = (None, [], f, tz)"
| "write_items ((mts_filename, info) # rest) f tz =
     (if \<not> dirty info then
        (case write_items rest f tz of
           (e, rest', f', tz') \<Rightarrow> (e, (mts_filename, info) # rest', f', tz'))
      else
        (case write_record mts_filename info f of
           (Some e, f') \<Rightarrow> (Some e, (mts_filename, info) # rest, f', tz)
         | (None, f') \<Rightarrow>
             (case write_items rest f' (update_tz mts_filename (info_datetime info) tz) of
                (e, rest', f'', tz') \<Rightarrow>
                  (e, (mts_filename, info\<lparr>dirty := False\<rparr>) # rest', f'', tz'))))"


subsection \<open>\<open>MplFile.read\<close>\<close>










subsection \<open>Auxiliary notions for the properties of \<open>write\<close>\<close>



definition bytes_at :: "byte list \<Rightarrow> nat \<Rightarrow> nat \<Rightarrow> byte list" where
  "bytes_at bs p n = take n (drop p bs)"














section \<open>Properties of the packed-decimal codec\<close>

subsection \<open>Digit lists\<close>

lemma digits_nonempty: "digits b n \<noteq> []"
  by (induction b n rule: digits.induct) (subst digits.simps, simp)

lemma digits_lt: "2 \<le> b \<Longrightarrow> d \<in> set (digits b n) \<Longrightarrow> d < b"
proof (induction b n rule: digits.induct)
  case (1 b n)
  show ?case
  proof (cases "n < b")
    case True
    with "1.prems" show ?thesis by (subst (asm) digits.simps) simp
  next
    case False
    with "1.prems" have "d \<in> set (digits b (n div b)) \<or> d = n mod b"
      by (subst (asm) digits.simps) auto
    with "1.IH" False "1.prems"(1) show ?thesis by auto
  qed
qed

lemma from_digits_snoc: "from_digits b (ds @ [d]) = from_digits b ds * b + d"
  by (simp add: from_digits_def)

lemma from_digits_digits: "2 \<le> b \<Longrightarrow> from_digits b (digits b n) = n"
proof (induction b n rule: digits.induct)
  case (1 b n)
  show ?case
  proof (cases "n < b")
    case True
    then show ?thesis by (subst digits.simps) (simp add: from_digits_def)
  next
    case False
    with "1.prems" have "digits b n = digits b (n div b) @ [n mod b]"
      by (subst digits.simps) simp
    with "1.IH" False "1.prems" show ?thesis
      by (simp add: from_digits_snoc)
  qed
qed

text \<open>A digit list is normal when it is a single digit or does not start with 0.\<close>

lemma digits_hd: "2 \<le> b \<Longrightarrow> length (digits b n) = 1 \<or> hd (digits b n) \<noteq> 0"
proof (induction b n rule: digits.induct)
  case (1 b n)
  show ?case
  proof (cases "n < b")
    case True
    then show ?thesis by (subst digits.simps) simp
  next
    case False
    with "1.prems" have eq: "digits b n = digits b (n div b) @ [n mod b]"
      by (subst digits.simps) simp
    from False "1.prems" have pos: "0 < n div b" 
      by (simp add: div_greater_zero_iff)
    have ne: "digits b (n div b) \<noteq> []" by (rule digits_nonempty)
    from "1.IH" False "1.prems" 
    have "length (digits b (n div b)) = 1 \<or> hd (digits b (n div b)) \<noteq> 0" by simp
    then have "hd (digits b (n div b)) \<noteq> 0"
    proof
      assume l: "length (digits b (n div b)) = 1"
      then obtain x where x: "digits b (n div b) = [x]"
        by (cases "digits b (n div b)") auto
      from from_digits_digits [OF "1.prems", of "n div b"] x have "x = n div b"
        by (simp add: from_digits_def)
      with pos x show ?thesis by simp
    qed
    with eq ne show ?thesis by simp
  qed
qed

lemma from_digits_pos: "0 < b \<Longrightarrow> ds \<noteq> [] \<Longrightarrow> hd ds \<noteq> 0 \<Longrightarrow> 0 < from_digits b ds"
proof (induction ds rule: rev_induct)
  case Nil
  then show ?case by simp
next
  case (snoc d ds)
  show ?case
  proof (cases "ds = []")
    case True
    with snoc.prems show ?thesis by (simp add: from_digits_def)
  next
    case False
    with snoc.prems have "hd ds \<noteq> 0" by simp
    with snoc.IH snoc.prems(1) False have "0 < from_digits b ds" by simp
    with snoc.prems(1) show ?thesis by (simp add: from_digits_snoc)
  qed
qed

lemma digits_from_digits:
  "2 \<le> b \<Longrightarrow> ds \<noteq> [] \<Longrightarrow> \<forall>d\<in>set ds. d < b \<Longrightarrow> length ds = 1 \<or> hd ds \<noteq> 0 \<Longrightarrow>
   digits b (from_digits b ds) = ds"
proof (induction ds rule: rev_induct)
  case Nil
  then show ?case by simp
next
  case (snoc d ds)
  show ?case
  proof (cases "ds = []")
    case True
    with snoc.prems show ?thesis
      by (subst digits.simps) (simp add: from_digits_def)
  next
    case False
    with snoc.prems have hd0: "hd ds \<noteq> 0" by auto
    from snoc.prems have db: "d < b" by simp
    from snoc.prems(1) have b0: "0 < b" by simp
    have pos: "0 < from_digits b ds"
      by (rule from_digits_pos [OF b0 False hd0])
    have ih: "digits b (from_digits b ds) = ds"
      using snoc.IH snoc.prems(1,3) False hd0 by simp
    let ?n = "from_digits b ds * b + d"
    from pos have "1 * b \<le> from_digits b ds * b" by (intro mult_le_mono1) simp
    then have ge: "\<not> ?n < b" by linarith
    from db have dv: "?n div b = from_digits b ds" and md: "?n mod b = d" by simp_all
    have "digits b ?n = digits b (?n div b) @ [?n mod b]"
      using ge snoc.prems(1) by (subst digits.simps) simp
    with dv md ih show ?thesis by (simp add: from_digits_snoc)
  qed
qed

lemma from_digits_bound:
  "\<forall>d\<in>set ds. d < b \<Longrightarrow> from_digits b ds < b ^ length ds"
proof (induction ds rule: rev_induct)
  case Nil
  then show ?case by (simp add: from_digits_def)
next
  case (snoc d ds)
  then have ih: "from_digits b ds < b ^ length ds" and db: "d < b" by simp_all
  from ih have "from_digits b ds + 1 \<le> b ^ length ds" by simp
  then have "(from_digits b ds + 1) * b \<le> b ^ length ds * b" by (rule mult_le_mono1)
  with db show ?case by (simp add: from_digits_snoc algebra_simps)
qed

lemma length_digits: "2 \<le> b \<Longrightarrow> n < b ^ k \<Longrightarrow> 0 < k \<Longrightarrow> length (digits b n) \<le> k"
proof (induction b n arbitrary: k rule: digits.induct)
  case (1 b n)
  show ?case
  proof (cases "n < b")
    case True
    with "1.prems" show ?thesis by (subst digits.simps) simp
  next
    case False
    with "1.prems" have eq: "digits b n = digits b (n div b) @ [n mod b]"
      by (subst digits.simps) simp
    from "1.prems" obtain j where k: "k = Suc j" by (cases k) auto
    from False "1.prems" k have j0: "0 < j" by (cases j) auto
    from "1.prems" k have "n div b < b ^ j"
      by (simp add: less_mult_imp_div_less mult.commute)
    with "1.IH" [of j] False "1.prems"(1) j0 have "length (digits b (n div b)) \<le> j" by simp
    with eq k show ?thesis by simp
  qed
qed


lemma digit_val_digit_char_all:
  "list_all (\<lambda>d. digit_val (digit_char d) = Some d) [0..<16]"
  by code_simp

lemma digit_val_digit_char: "d < 16 \<Longrightarrow> digit_val (digit_char d) = Some d"
  using digit_val_digit_char_all by (simp add: list_all_iff)

lemma int_of_str_digits:
  assumes "ds \<noteq> []" and "\<forall>d\<in>set ds. d < b" and "b \<le> 16"
  shows "int_of_str b (map digit_char ds) = Inr (from_digits b ds)"
proof -
  from assms have lt16: "\<forall>d\<in>set ds. d < 16" by auto
  then have m: "map (\<lambda>c. the (digit_val c)) (map digit_char ds) = ds"
    by (induction ds) (simp_all add: digit_val_digit_char)
  from lt16 assms(2)
  have a: "list_all (\<lambda>c. case digit_val c of None \<Rightarrow> False | Some d \<Rightarrow> d < b) (map digit_char ds)"
    by (induction ds) (simp_all add: digit_val_digit_char)
  from assms(1) m a show ?thesis by (simp add: int_of_str_def)
qed

lemma hex_letter_val:
  "list_all (\<lambda>c. case digit_val c of None \<Rightarrow> True | Some d \<Rightarrow> 10 \<le> d) ''abcdef''"
  by code_simp

lemma hex_letter_rejected:
  assumes c: "c \<in> set ''abcdef''" and s: "c \<in> set s"
  shows "int_of_str 10 s = Inl ValueError"
proof -
  from c hex_letter_val
  have "case digit_val c of None \<Rightarrow> True | Some d \<Rightarrow> 10 \<le> d"
    unfolding list_all_iff by blast
  then have "\<not> (case digit_val c of None \<Rightarrow> False | Some d \<Rightarrow> d < 10)"
    by (cases "digit_val c") simp_all
  with s have "\<not> list_all (\<lambda>c. case digit_val c of None \<Rightarrow> False | Some d \<Rightarrow> d < 10) s"
    unfolding list_all_iff by blast
  then show ?thesis by (simp add: int_of_str_def)
qed

lemma from_bytes_to_bytes2: "to_bytes2 n = Inr bs \<Longrightarrow> from_bytes bs = n \<and> length bs = 2"
  by (auto simp: to_bytes2_def from_bytes_def unat_of_nat split: if_splits)

lemma from_bytes_bytes1: "bytes1 n = Inr bs \<Longrightarrow> \<exists>b. bs = [b] \<and> unat b = n"
  by (auto simp: bytes1_def unat_of_nat split: if_splits)

lemma format_x_packed:
  "format_x (from_digits 16 (digits 10 v)) = format_d v"
proof -
  have lt: "\<forall>d\<in>set (digits 10 v). d < 16"
    using digits_lt [of 10 _ v] by fastforce
  have "digits 16 (from_digits 16 (digits 10 v)) = digits 10 v"
    by (rule digits_from_digits) (use lt digits_nonempty digits_hd [of 10 v] in simp_all)
  then show ?thesis by (simp add: format_x_def format_d_def)
qed

lemma int_of_str_16_format_d: "int_of_str 16 (format_d v) = Inr (from_digits 16 (digits 10 v))"
  unfolding format_d_def
  by (rule int_of_str_digits) (use digits_lt [of 10 _ v] digits_nonempty in fastforce)+

lemma int_of_str_10_format_d: "int_of_str 10 (format_d v) = Inr v"
proof -
  have "int_of_str 10 (format_d v) = Inr (from_digits 10 (digits 10 v))"
    unfolding format_d_def
    by (rule int_of_str_digits) (use digits_lt [of 10 _ v] digits_nonempty in fastforce)+
  then show ?thesis by (simp add: from_digits_digits)
qed

lemma packed_bound:
  assumes "v < 10 ^ k" and "0 < k"
  shows "from_digits 16 (digits 10 v) < 16 ^ k"
proof -
  have len: "length (digits 10 v) \<le> k"
    by (rule length_digits) (use assms in simp_all)
  have "\<forall>d\<in>set (digits 10 v). d < 16"
    using digits_lt [of 10 _ v] by fastforce
  then have "from_digits 16 (digits 10 v) < 16 ^ length (digits 10 v)"
    by (rule from_digits_bound)
  also from len have "\<dots> \<le> (16::nat) ^ k" by (intro power_increasing) simp_all
  finally show ?thesis .
qed

lemma encode_year_roundtrip:
  assumes "v \<le> 9999"
  shows "\<exists>bs. encode_year v = Inr bs \<and> length bs = 2 \<and> decode_year bs = Inr v"
proof -
  let ?n = "from_digits 16 (digits 10 v)"
  from assms have "v < 10 ^ 4" by simp
  then have "?n < 16 ^ 4" by (rule packed_bound) simp
  then have lt: "?n < 65536" by simp
  then obtain bs where bs: "to_bytes2 ?n = Inr bs" by (auto simp: to_bytes2_def)
  then have fb: "from_bytes bs = ?n" and len: "length bs = 2"
    using from_bytes_to_bytes2 by blast+
  have enc: "encode_year v = Inr bs"
    by (simp add: encode_year_def bind_def int_of_str_16_format_d bs)
  have "decode_year bs = Inr v"
    by (simp add: decode_year_def fb format_x_packed int_of_str_10_format_d)
  with enc len show ?thesis by blast
qed

lemma encode_field_roundtrip:
  assumes "v \<le> 99"
  shows "\<exists>b. encode_field v = Inr [b] \<and> decode_field b = Inr v"
proof -
  let ?n = "from_digits 16 (digits 10 v)"
  from assms have "v < 10 ^ 2" by simp
  then have "?n < 16 ^ 2" by (rule packed_bound) simp
  then have lt: "?n < 256" by simp
  then obtain bs where bs: "bytes1 ?n = Inr bs" by (auto simp: bytes1_def)
  then obtain b where b: "bs = [b]" "unat b = ?n"
    using from_bytes_bytes1 by blast
  have enc: "encode_field v = Inr [b]"
    by (simp add: encode_field_def bind_def int_of_str_16_format_d bs b)
  have "decode_field b = Inr v"
    by (simp add: decode_field_def b format_x_packed int_of_str_10_format_d)
  with enc show ?thesis by blast
qed

text \<open>Evaluation of the renderings on numerals, for concrete inputs.\<close>

lemma digits_0: "digits b 0 = [0]"
  by (subst digits.simps) auto

lemma digits_1: "digits b 1 = [1]"
  by (subst digits.simps) auto

lemma digits_Suc_0: "digits b (Suc 0) = [Suc 0]"
  by (subst digits.simps) auto

lemma digits_numeral:
  "digits b (numeral k) =
     (if numeral k < b \<or> b < 2 then [numeral k]
      else digits b (numeral k div b) @ [numeral k mod b])"
  by (rule digits.simps)

lemmas codec_eval = digits_0 digits_1 digits_Suc_0 digits_numeral format_x_def format_d_def digit_char_def
  digit_val_def int_of_str_def from_digits_def from_bytes_def to_bytes2_def bytes1_def bind_def
  decode_year_def decode_field_def encode_year_def encode_field_def

text \<open>
  Claim C2.  For every year value up to 9999 and every one-byte field value up to 99,
  encoding succeeds (two bytes for the year, one byte otherwise) and decoding the encoded
  bytes gives the value back.  Raw bytes whose hexadecimal rendering contains one of the
  digits \<open>a\<close> to \<open>f\<close> are rejected by the decoder: \<open>int\<close> raises \<open>ValueError\<close>, the
  exception the code has for what the specification calls a corruption error.
\<close>

theorem packed_decimal_roundtrip:
  "(v \<le> 9999 \<longrightarrow> (\<exists>bs. encode_year v = Inr bs \<and> length bs = 2 \<and> decode_year bs = Inr v)) \<and>
   (w \<le> 99 \<longrightarrow> (\<exists>b. encode_field w = Inr [b] \<and> decode_field b = Inr w)) \<and>
   ((\<exists>c\<in>set (format_x (from_bytes raw)). c \<in> set ''abcdef'') \<longrightarrow>
      decode_year raw = Inl ValueError) \<and>
   ((\<exists>c\<in>set (format_x (unat rb)). c \<in> set ''abcdef'') \<longrightarrow>
      decode_field rb = Inl ValueError)"
proof (intro conjI impI)
  assume "v \<le> 9999"
  then show "\<exists>bs. encode_year v = Inr bs \<and> length bs = 2 \<and> decode_year bs = Inr v"
    by (rule encode_year_roundtrip)
next
  assume "w \<le> 99"
  then show "\<exists>b. encode_field w = Inr [b] \<and> decode_field b = Inr w"
    by (rule encode_field_roundtrip)
next
  assume "\<exists>c\<in>set (format_x (from_bytes raw)). c \<in> set ''abcdef''"
  then obtain c where "c \<in> set ''abcdef''" "c \<in> set (format_x (from_bytes raw))" by blast
  then show "decode_year raw = Inl ValueError"
    unfolding decode_year_def by (rule hex_letter_rejected)
next
  assume "\<exists>c\<in>set (format_x (unat rb)). c \<in> set ''abcdef''"
  then obtain c where "c \<in> set ''abcdef''" "c \<in> set (format_x (unat rb))" by blast
  then show "decode_field rb = Inl ValueError"
    unfolding decode_field_def by (rule hex_letter_rejected)
qed

theorem packed_decimal_roundtrip_witness:
  "(2021::nat) \<le> 9999 \<and> encode_year 2021 = Inr [0x20, 0x21] \<and>
   decode_year [0x20, 0x21] = Inr 2021 \<and>
   (59::nat) \<le> 99 \<and> encode_field 59 = Inr [0x59] \<and> decode_field 0x59 = Inr 59 \<and>
   CHR ''a'' \<in> set (format_x (from_bytes [0x20, 0x2A])) \<and>
   decode_year [0x20, 0x2A] = Inl ValueError \<and>
   CHR ''f'' \<in> set (format_x (unat (0x1F :: byte))) \<and> decode_field 0x1F = Inl ValueError"
proof -
  have e1: "encode_year 2021 = Inr [0x20, 0x21]" by (simp add: codec_eval)
  have e2: "encode_field 59 = Inr [0x59]" by (simp add: codec_eval)
  have h1: "CHR ''a'' \<in> set (format_x (from_bytes [0x20, 0x2A]))" by (simp add: codec_eval)
  have h2: "CHR ''f'' \<in> set (format_x (unat (0x1F :: byte)))" by (simp add: codec_eval)
  note t = packed_decimal_roundtrip [of 2021 59 "[0x20, 0x2A]" "0x1F"]
  from t e1 have d1: "decode_year [0x20, 0x21] = Inr 2021" by simp
  from t e2 have d2: "decode_field 0x59 = Inr 59" by simp
  have m1: "CHR ''a'' \<in> set ''abcdef''" and m2: "CHR ''f'' \<in> set ''abcdef''" by simp_all
  from t h1 m1 have r1: "decode_year [0x20, 0x2A] = Inl ValueError" by blast
  from t h2 m2 have r2: "decode_field 0x1F = Inl ValueError" by blast
  from e1 e2 h1 h2 d1 d2 r1 r2 show ?thesis by simp
qed

section \<open>Properties of the delta interpolator\<close>

subsection \<open>The insertion point\<close>


lemma keys_nth: "i < length as \<Longrightarrow> map fst as ! i = fst (as ! i)"
  by simp





subsection \<open>Rounding and the float quotient\<close>


lemma round_half_even_of_int [simp]: "round_half_even (of_int n) = n"
  by (simp add: round_half_even_def)

lemma round_half_even_0 [simp]: "round_half_even 0 = 0"
  using round_half_even_of_int [of 0] by simp


lemma true_divide_0 [simp]: "true_divide 0 q = 0"
  by (simp add: true_divide_def scale2_def Let_def)



lemma mul_float_timedelta_0 [simp]: "mul_float_timedelta 0 d = 0"
  by (simp add: mul_float_timedelta_def)

lemma mul_float_timedelta_1 [simp]: "mul_float_timedelta 1 d = d"
  by (simp add: mul_float_timedelta_def)



subsection \<open>The cases of \<open>get_delta\<close>\<close>







subsection \<open>Evaluation\<close>

lemma bit_length_0 [simp]: "bit_length 0 = 0"
  by (simp add: bit_length.simps)

lemma bit_length_1 [simp]: "bit_length 1 = 1"
  by (simp add: bit_length.simps [of 1])




subsection \<open>The claim\<close>




section \<open>Properties of the session-index file\<close>

subsection \<open>Reading and writing at a position\<close>

lemma f_read_bytes_at:
  "f_read f n = (bytes_at (content f) (pos f) n,
                 f\<lparr>pos := pos f + length (bytes_at (content f) (pos f) n)\<rparr>)"
  by (simp add: f_read_def bytes_at_def Let_def)

lemma content_f_read [simp]: "content (snd (f_read f n)) = content f"
  by (simp add: f_read_bytes_at)











subsection \<open>Writing one record\<close>










subsection \<open>Valid dates\<close>





subsection \<open>The loop over the records\<close>



lemma write_items_skip_clean:
  assumes "\<forall>x\<in>set pre. \<not> dirty (snd x)"
  shows "write_items (pre @ items) f tz =
         (case write_items items f tz of (e, items', f', tz') \<Rightarrow> (e, pre @ items', f', tz'))"
  using assms by (induction pre) (auto split: prod.splits)

lemma write_items_all_clean:
  assumes "\<forall>x\<in>set items. \<not> dirty (snd x)"
  shows "write_items items f tz = (None, items, f, tz)"
  using write_items_skip_clean [OF assms, of "[]" f tz] by simp

subsection \<open>Records as \<open>read\<close> leaves them\<close>





subsection \<open>Verification before the overwrite\<close>



subsection \<open>The bytes that are written\<close>

lemma f_write_content:
  "pos f \<le> length (content f) \<Longrightarrow>
   content (f_write f bs) = take (pos f) (content f) @ bs @ drop (pos f + length bs) (content f)"
  by (simp add: f_write_def)






subsection \<open>A pass that fails\<close>



subsection \<open>The sample file\<close>




















subsection \<open>The claims about \<open>write\<close>\<close>







end
